theory Spec2Isabelle
  imports Complex_Main "HOL-Library.Multiset"
begin

section \<open>The Product table and the data passed to the service\<close>

text \<open>
  A row of the \<open>Product\<close> table, with the columns of the schema the repository documents:
  \<^verbatim>\<open>id Int @id @default(autoincrement())\<close>, \<^verbatim>\<open>name String\<close>, \<^verbatim>\<open>price Float\<close>,
  \<^verbatim>\<open>available Boolean @default(true)\<close>, \<^verbatim>\<open>createdAt DateTime @default(now())\<close>,
  \<^verbatim>\<open>updatedAt DateTime @updatedAt\<close>.  Field names carry the suffix \<open>_p\<close> (\<open>id\<close> is a
  constant of HOL, and the DTOs below have fields of the same names).  A \<open>Date\<close> is the
  number of milliseconds since the epoch.  The price is stored and returned, never
  computed with, so a real number stands for the JavaScript number.
\<close>

record Product =
  id_p :: int
  name_p :: string
  price_p :: real
  available_p :: bool
  createdAt_p :: nat
  updatedAt_p :: nat

text \<open>\<open>CreateProductDto\<close>: \<^verbatim>\<open>name: string; price: number\<close>.\<close>

record CreateProductDto =
  name_c :: string
  price_c :: real

text \<open>
  \<open>UpdateProductDto\<close>: \<open>PartialType(CreateProductDto)\<close> with an \<open>id\<close>.  The class declares
  \<open>id\<close> as required; the object that reaches \<open>update\<close> is a plain JavaScript object, and the
  destructuring in \<open>update\<close> works whether the property is there or not, so each property
  is optional here.
\<close>

record UpdateProductDto =
  id_u :: "int option"
  name_u :: "string option"
  price_u :: "real option"

text \<open>\<open>PaginationDto\<close>: \<^verbatim>\<open>page?: number; limit?: number\<close>.\<close>

record PaginationDto =
  page_q :: "int option"
  limit_q :: "int option"

text \<open>
  The value of \<^verbatim>\<open>Math.ceil(totalProducts / limit)\<close>: an integer, or what JavaScript's
  division by zero gives.
\<close>

datatype number = Num int | Infinity | NegInfinity | NaN

record Meta =
  page_m :: int
  total_m :: int
  lastPage_m :: number

record FindAllResult =
  data_r :: "Product list"
  meta_r :: Meta

text \<open>
  The failures of the error taxonomy: \<^verbatim>\<open>NotFoundException(`Product with id #${id} not found`)\<close>,
  of which the id is the only varying part and is what the constructor carries, and the
  failures that come from the storage layer.
\<close>

datatype error = NotFoundException int | PersistenceError

text \<open>
  The database behind \<open>this.product\<close>: the rows of the table, and the counter SQLite keeps
  for an \<open>AUTOINCREMENT\<close> column (the largest id it has handed out).
\<close>

record Db =
  product_rows :: "Product list"
  sqlite_sequence :: int

definition empty_db :: Db where
  "empty_db = \<lparr>product_rows = [], sqlite_sequence = 0\<rparr>"

section \<open>The ORM calls the service makes\<close>

text \<open>
  The argument \<open>data\<close> of \<open>product.update\<close>: the columns to write, each one optional
  (a property that is absent or \<open>undefined\<close> leaves its column alone).
\<close>

record ProductUpdateInput =
  id_d :: "int option"
  name_d :: "string option"
  price_d :: "real option"
  available_d :: "bool option"

text \<open>
  Modelled from the spec: the generated ORM client (\<open>generated/prisma/client\<close>) and
  \<open>prisma/schema.prisma\<close> are not among the sources.  \<open>product.create\<close> "inserts a new row
  with available = true, createdAt = updatedAt = now()" and "returns the fully populated
  created record (including generated id)"; the id is "auto-assigned, unique" and "never
  reused": it is one more than the largest id the table holds or has handed out, as the
  \<open>AUTOINCREMENT\<close> of the migration in the repository's notes does.  \<open>now\<close> is the clock
  reading at the moment of the write.
\<close>

definition product_create :: "nat \<Rightarrow> Db \<Rightarrow> CreateProductDto \<Rightarrow> Db \<times> Product" where
  "product_create now db dto =
     (let new_id = fold max (map id_p (product_rows db)) (sqlite_sequence db) + 1;
          row = \<lparr>id_p = new_id, name_p = name_c dto, price_p = price_c dto,
                 available_p = True, createdAt_p = now, updatedAt_p = now\<rparr>
      in (\<lparr>product_rows = product_rows db @ [row], sqlite_sequence = new_id\<rparr>, row))"

text \<open>
  Modelled from the spec: \<open>product.count({where: {available: true}})\<close> of the missing ORM
  client "counts all rows where available = true".
\<close>

definition product_count_available :: "Db \<Rightarrow> int" where
  "product_count_available db = int (length (filter available_p (product_rows db)))"

text \<open>
  The rows with \<open>available = true\<close>, in primary-key order: what the \<open>where\<close> clause
  \<^verbatim>\<open>{ available: true }\<close> of \<open>findAll\<close> selects, before \<open>skip\<close> and \<open>take\<close>.
\<close>

definition available_products :: "Db \<Rightarrow> Product list" where
  "available_products db = sort_key id_p (filter available_p (product_rows db))"

text \<open>
  Modelled from the spec: \<open>product.findMany({skip, take, where: {available: true}})\<close> of the
  missing ORM client "returns rows where available = true, ordered by insertion
  (implementation may use primary-key order as a stable tie-break), skipping (page-1)*limit
  rows and taking at most limit rows".  The spec constrains \<open>page\<close> and \<open>limit\<close> to be
  positive; outside that range the client's documented behaviour is written out: a
  negative \<open>skip\<close> is rejected, a negative \<open>take\<close> takes from the end of the list.
\<close>

definition product_findMany_available :: "int \<Rightarrow> int \<Rightarrow> Db \<Rightarrow> error + Product list" where
  "product_findMany_available skip tk db =
     (let avail = available_products db
      in if skip < 0 then Inl PersistenceError
         else if 0 \<le> tk then Inr (take (nat tk) (drop (nat skip) avail))
         else Inr (rev (take (nat (- tk)) (drop (nat skip) (rev avail)))))"

text \<open>
  Modelled from the spec: \<open>product.findFirst({where: {id, available: true}})\<close> of the missing
  ORM client "looks up the first row matching id AND available = true"; \<open>null\<close> is \<open>None\<close>.
\<close>

definition product_findFirst :: "int \<Rightarrow> Db \<Rightarrow> Product option" where
  "product_findFirst i db = find (\<lambda>r. id_p r = i \<and> available_p r) (product_rows db)"

text \<open>
  Modelled from the spec: what \<open>product.update\<close> of the missing ORM client writes into one
  row.  It "applies the provided fields and refreshes updatedAt; fields not present in
  patch are left unchanged".  With no field provided there is nothing to apply: the
  client issues no write, and the row, its \<open>updatedAt\<close> included, stays as it is.
\<close>

definition apply_data :: "nat \<Rightarrow> ProductUpdateInput \<Rightarrow> Product \<Rightarrow> Product" where
  "apply_data now d r =
     (if id_d d = None \<and> name_d d = None \<and> price_d d = None \<and> available_d d = None then r
      else r\<lparr>id_p := (case id_d d of None \<Rightarrow> id_p r | Some j \<Rightarrow> j),
             name_p := (case name_d d of None \<Rightarrow> name_p r | Some n \<Rightarrow> n),
             price_p := (case price_d d of None \<Rightarrow> price_p r | Some x \<Rightarrow> x),
             available_p := (case available_d d of None \<Rightarrow> available_p r | Some a \<Rightarrow> a),
             updatedAt_p := now\<rparr>)"

text \<open>
  Modelled from the spec: \<open>product.update({where: {id}, data})\<close> of the missing ORM client
  "applies the provided fields and refreshes updatedAt; fields not present in patch are
  left unchanged", and returns the updated record.  The write takes every column it is
  given, the id among them (the spec: "the source strips an id field from the patch
  before writing ... rather than silently allowing id reassignment").  A failure of the
  storage layer (no row with that id, or a new id that another row already has: a
  "constraint violation at the storage layer") is a \<open>PersistenceError\<close> and writes nothing.
\<close>

definition product_update :: "nat \<Rightarrow> int \<Rightarrow> ProductUpdateInput \<Rightarrow> Db \<Rightarrow> Db \<times> (error + Product)" where
  "product_update now i d db =
     (case find (\<lambda>r. id_p r = i) (product_rows db) of
        None \<Rightarrow> (db, Inl PersistenceError)
      | Some r \<Rightarrow>
          (let r' = apply_data now d r
           in if id_p r' \<noteq> i \<and> id_p r' \<in> set (map id_p (product_rows db))
              then (db, Inl PersistenceError)
              else (db\<lparr>product_rows := map (\<lambda>x. if id_p x = i then apply_data now d x else x) (product_rows db)\<rparr>,
                    Inr r')))"

section \<open>ProductsService\<close>

text \<open>
  Each method takes the database and returns its result; a method that writes also takes
  the clock reading \<open>now\<close> of its write and returns the database after it.  An exception
  is \<open>Inl\<close>.  The model covers the executions in which every round trip to the storage
  completes.
\<close>

text \<open>\<^verbatim>\<open>create(createProductDto) { return this.product.create({ data: createProductDto }); }\<close>\<close>

definition create :: "nat \<Rightarrow> Db \<Rightarrow> CreateProductDto \<Rightarrow> Db \<times> (error + Product)" where
  "create now db createProductDto =
     (let (db', row) = product_create now db createProductDto in (db', Inr row))"

text \<open>
  \<^verbatim>\<open>Math.ceil(a / b)\<close> on integers \<open>a\<close> and \<open>b\<close>.  On counts and page sizes that a
  table can have (far below \<open>2^53\<close>) the floating-point quotient has the ceiling of the
  exact one, so the division is that of the reals; a division by zero gives an infinity,
  or \<open>NaN\<close> for \<open>0 / 0\<close>.
\<close>

definition Math_ceil_div :: "int \<Rightarrow> int \<Rightarrow> number" where
  "Math_ceil_div a b =
     (if b = 0 then (if a = 0 then NaN else if 0 < a then Infinity else NegInfinity)
      else Num \<lceil>real_of_int a / real_of_int b\<rceil>)"

text \<open>
  \<open>findAll\<close>: the defaults of the destructuring, the count, \<open>lastPage\<close>, then the page of
  rows with \<open>skip = (page - 1) * limit\<close> and \<open>take = limit\<close>.
\<close>

definition findAll :: "Db \<Rightarrow> PaginationDto \<Rightarrow> error + FindAllResult" where
  "findAll db paginationDto =
     (let limit = (case limit_q paginationDto of None \<Rightarrow> 10 | Some l \<Rightarrow> l);
          page = (case page_q paginationDto of None \<Rightarrow> 1 | Some p \<Rightarrow> p);
          totalProducts = product_count_available db;
          lastPage = Math_ceil_div totalProducts limit
      in case product_findMany_available ((page - 1) * limit) limit db of
           Inl e \<Rightarrow> Inl e
         | Inr rows \<Rightarrow>
             Inr \<lparr>data_r = rows,
                  meta_r = \<lparr>page_m = page, total_m = totalProducts, lastPage_m = lastPage\<rparr>\<rparr>)"

text \<open>\<open>findOne\<close>: \<open>findFirst\<close>, and \<open>NotFoundException\<close> when it gives \<open>null\<close>.\<close>

definition findOne :: "Db \<Rightarrow> int \<Rightarrow> error + Product" where
  "findOne db i =
     (case product_findFirst i db of
        None \<Rightarrow> Inl (NotFoundException i)
      | Some p \<Rightarrow> Inr p)"

text \<open>
  \<open>update\<close> of the TypeScript source: \<^verbatim>\<open>const { id: __, ...data } = updateProductDto\<close> drops
  the id, \<open>findOne\<close> checks that the product is there, then the write.
\<close>

definition update :: "nat \<Rightarrow> Db \<Rightarrow> int \<Rightarrow> UpdateProductDto \<Rightarrow> Db \<times> (error + Product)" where
  "update now db i updateProductDto =
     (let data = \<lparr>id_d = None, name_d = name_u updateProductDto,
                  price_d = price_u updateProductDto, available_d = None\<rparr>
      in case findOne db i of
           Inl e \<Rightarrow> (db, Inl e)
         | Inr _ \<Rightarrow> product_update now i data db)"

text \<open>
  \<open>update\<close> of the compiled JavaScript copy of the service: \<open>findOne\<close>, then the write with
  \<^verbatim>\<open>data: updateProductDto\<close>, the whole DTO.
\<close>

definition update_dist :: "nat \<Rightarrow> Db \<Rightarrow> int \<Rightarrow> UpdateProductDto \<Rightarrow> Db \<times> (error + Product)" where
  "update_dist now db i updateProductDto =
     (case findOne db i of
        Inl e \<Rightarrow> (db, Inl e)
      | Inr _ \<Rightarrow>
          product_update now i
            \<lparr>id_d = id_u updateProductDto, name_d = name_u updateProductDto,
             price_d = price_u updateProductDto, available_d = None\<rparr> db)"

text \<open>\<open>remove\<close>: \<open>findOne\<close>, then the write of \<^verbatim>\<open>data: { available: false }\<close>.\<close>

definition soft_delete :: ProductUpdateInput where
  "soft_delete = \<lparr>id_d = None, name_d = None, price_d = None, available_d = Some False\<rparr>"

definition remove :: "nat \<Rightarrow> Db \<Rightarrow> int \<Rightarrow> Db \<times> (error + Product)" where
  "remove now db i =
     (case findOne db i of
        Inl e \<Rightarrow> (db, Inl e)
      | Inr _ \<Rightarrow> product_update now i soft_delete db)"

section \<open>Sequences of calls\<close>

text \<open>A call of one of the five methods of the service, and what it answers.\<close>

datatype request =
    Create CreateProductDto
  | FindAll PaginationDto
  | FindOne int
  | Update int UpdateProductDto
  | Remove int

datatype response = One Product | Page FindAllResult

fun step :: "nat \<Rightarrow> Db \<Rightarrow> request \<Rightarrow> Db \<times> (error + response)" where
  "step now db (Create dto) = (let (db', r) = create now db dto in (db', map_sum (\<lambda>e. e) One r))"
| "step now db (FindAll q) = (db, map_sum (\<lambda>e. e) Page (findAll db q))"
| "step now db (FindOne i) = (db, map_sum (\<lambda>e. e) One (findOne db i))"
| "step now db (Update i dto) = (let (db', r) = update now db i dto in (db', map_sum (\<lambda>e. e) One r))"
| "step now db (Remove i) = (let (db', r) = remove now db i in (db', map_sum (\<lambda>e. e) One r))"

text \<open>
  The database after a sequence of calls, one after the other, each with the clock
  reading at which it runs.
\<close>

fun run :: "Db \<Rightarrow> (nat \<times> request) list \<Rightarrow> Db" where
  "run db [] = db"
| "run db ((now, rq) # rest) = run (fst (step now db rq)) rest"

text \<open>
  The scan of property P2: read \<open>meta.lastPage\<close> from page 1, ask for the pages
  \<open>1, ..., lastPage\<close> and concatenate their \<open>data\<close>; \<open>None\<close> when a call fails or
  \<open>lastPage\<close> is not an integer.
\<close>

fun collect :: "(error + FindAllResult) list \<Rightarrow> Product list option" where
  "collect [] = Some []"
| "collect (Inl e # rs) = None"
| "collect (Inr r # rs) = map_option (\<lambda>ps. data_r r @ ps) (collect rs)"

definition scan :: "Db \<Rightarrow> int \<Rightarrow> Product list option" where
  "scan db limit =
     (case findAll db \<lparr>page_q = Some 1, limit_q = Some limit\<rparr> of
        Inl e \<Rightarrow> None
      | Inr r \<Rightarrow>
          (case lastPage_m (meta_r r) of
             Num n \<Rightarrow> collect (map (\<lambda>k. findAll db \<lparr>page_q = Some k, limit_q = Some limit\<rparr>) [1..n])
           | _ \<Rightarrow> None))"

section \<open>Invariants and example data\<close>

text \<open>The primary key: no two rows of the table have the same id.\<close>

definition primary_key :: "Db \<Rightarrow> bool" where
  "primary_key db = distinct (map id_p (product_rows db))"

text \<open>The id \<open>i\<close> is in the table and no row with that id is available.\<close>

definition removed :: "int \<Rightarrow> Db \<Rightarrow> bool" where
  "removed i db \<longleftrightarrow>
     i \<in> id_p ` set (product_rows db) \<and>
     (\<forall>r\<in>set (product_rows db). id_p r = i \<longrightarrow> \<not> available_p r)"

text \<open>
  No row was updated before it was created, and no row was created after the clock
  reading \<open>now\<close>.
\<close>

definition stamped :: "nat \<Rightarrow> Db \<Rightarrow> bool" where
  "stamped now db \<longleftrightarrow>
     (\<forall>r\<in>set (product_rows db). createdAt_p r \<le> updatedAt_p r \<and> createdAt_p r \<le> now)"

text \<open>
  A table of four products, the second one soft-deleted, and the payloads used in the
  examples.
\<close>

definition laptop :: Product where
  "laptop = \<lparr>id_p = 1, name_p = ''Laptop'', price_p = 999.99, available_p = True,
              createdAt_p = 10, updatedAt_p = 10\<rparr>"

definition mouse :: Product where
  "mouse = \<lparr>id_p = 2, name_p = ''Mouse'', price_p = 25, available_p = False,
             createdAt_p = 11, updatedAt_p = 40\<rparr>"

definition keyboard :: Product where
  "keyboard = \<lparr>id_p = 3, name_p = ''Keyboard'', price_p = 45.5, available_p = True,
                createdAt_p = 12, updatedAt_p = 12\<rparr>"

definition monitor :: Product where
  "monitor = \<lparr>id_p = 4, name_p = ''Monitor'', price_p = 300, available_p = True,
               createdAt_p = 13, updatedAt_p = 13\<rparr>"

definition shop :: Db where
  "shop = \<lparr>product_rows = [laptop, mouse, keyboard, monitor], sqlite_sequence = 4\<rparr>"

definition webcam :: Product where
  "webcam = \<lparr>id_p = 5, name_p = ''Webcam'', price_p = 60, available_p = True,
              createdAt_p = 50, updatedAt_p = 50\<rparr>"

definition new_webcam :: CreateProductDto where
  "new_webcam = \<lparr>name_c = ''Webcam'', price_c = 60\<rparr>"

definition new_price :: "int option \<Rightarrow> UpdateProductDto" where
  "new_price j = \<lparr>id_u = j, name_u = None, price_u = Some 899.99\<rparr>"

definition only_id :: "int \<Rightarrow> UpdateProductDto" where
  "only_id j = \<lparr>id_u = Some j, name_u = None, price_u = None\<rparr>"

section \<open>Arithmetic of the page count\<close>

lemma ceil_bounds:
  fixes n l :: int
  assumes "0 < l"
  shows "n \<le> \<lceil>real_of_int n / real_of_int l\<rceil> * l \<and> (\<lceil>real_of_int n / real_of_int l\<rceil> - 1) * l < n"
proof -
  define q where "q = (- n) div l"
  define m where "m = (- n) mod l"
  have c: "\<lceil>real_of_int n / real_of_int l\<rceil> = - q"
    by (simp add: q_def ceiling_divide_eq_div)
  have e: "- n = q * l + m" by (simp add: q_def m_def)
  have b: "0 \<le> m" "m < l" using assms by (simp_all add: m_def)
  have "n \<le> (- q) * l" using e b by (simp add: algebra_simps)
  moreover have "(- q - 1) * l < n" using e b by (simp add: algebra_simps)
  ultimately show ?thesis by (simp add: c)
qed

lemma ceil_nonneg:
  fixes n l :: int
  assumes "0 < l" "0 \<le> n"
  shows "0 \<le> \<lceil>real_of_int n / real_of_int l\<rceil>"
proof -
  have "0 \<le> real_of_int n / real_of_int l" using assms by simp
  then have "- 1 < real_of_int n / real_of_int l" by linarith
  then show ?thesis by (simp add: zero_le_ceiling)
qed

lemma ceil_zero_iff:
  fixes n l :: int
  assumes "0 < l" "0 \<le> n"
  shows "\<lceil>real_of_int n / real_of_int l\<rceil> = 0 \<longleftrightarrow> n = 0"
proof
  assume "\<lceil>real_of_int n / real_of_int l\<rceil> = 0"
  with ceil_bounds [OF assms(1), of n] have "n \<le> 0" by simp
  with assms(2) show "n = 0" by simp
next
  assume "n = 0" then show "\<lceil>real_of_int n / real_of_int l\<rceil> = 0" by simp
qed

section \<open>Pages\<close>

lemma length_available_products:
  "int (length (available_products db)) = product_count_available db"
  by (simp add: available_products_def product_count_available_def)

lemma findAll_defaults:
  "findAll db \<lparr>page_q = pg, limit_q = lm\<rparr> =
     findAll db \<lparr>page_q = Some (case pg of None \<Rightarrow> 1 | Some p \<Rightarrow> p),
                 limit_q = Some (case lm of None \<Rightarrow> 10 | Some l \<Rightarrow> l)\<rparr>"
  by (simp add: findAll_def)

lemma findAll_page:
  assumes "1 \<le> l" "1 \<le> p"
  shows "findAll db \<lparr>page_q = Some p, limit_q = Some l\<rparr> =
     Inr \<lparr>data_r = take (nat l) (drop (nat ((p - 1) * l)) (available_products db)),
          meta_r = \<lparr>page_m = p, total_m = product_count_available db,
                    lastPage_m = Num \<lceil>real_of_int (product_count_available db) / real_of_int l\<rceil>\<rparr>\<rparr>"
proof -
  have "\<not> (p - 1) * l < 0" using assms by (simp add: mult_less_0_iff)
  moreover have "l \<noteq> 0" "0 \<le> l" using assms by simp_all
  ultimately show ?thesis
    by (simp add: findAll_def product_findMany_available_def Math_ceil_div_def Let_def)
qed

lemma collect_append:
  "collect xs = Some a \<Longrightarrow> collect ys = Some b \<Longrightarrow> collect (xs @ ys) = Some (a @ b)"
proof (induction xs arbitrary: a rule: collect.induct)
  case 1 then show ?case by simp
next
  case (2 e rs) then show ?case by simp
next
  case (3 r rs) then show ?case by auto
qed

lemma take_next_page:
  "take (n * l) xs @ take l (drop (n * l) xs) = take (Suc n * l) xs"
proof -
  have "Suc n * l = n * l + l" by simp
  then show ?thesis by (simp only: take_add)
qed

lemma pages_prefix:
  assumes "1 \<le> limit"
  shows "collect (map (\<lambda>k. findAll db \<lparr>page_q = Some k, limit_q = Some limit\<rparr>) [1..int n])
           = Some (take (n * nat limit) (available_products db))"
proof (induction n)
  case 0 show ?case by simp
next
  case (Suc n)
  have u: "[1..int (Suc n)] = [1..int n] @ [int n + 1]"
    using upto_rec2 [of 1 "int (Suc n)"] by (simp add: add.commute)
  have s: "nat (int n * limit) = n * nat limit"
    using assms by (simp add: nat_mult_distrib)
  have p: "findAll db \<lparr>page_q = Some (int n + 1), limit_q = Some limit\<rparr> =
      Inr \<lparr>data_r = take (nat limit) (drop (n * nat limit) (available_products db)),
           meta_r = \<lparr>page_m = int n + 1, total_m = product_count_available db,
                     lastPage_m = Num \<lceil>real_of_int (product_count_available db) / real_of_int limit\<rceil>\<rparr>\<rparr>"
    using findAll_page [OF assms, of "int n + 1" db] by (simp add: s)
  have "collect ([findAll db \<lparr>page_q = Some (int n + 1), limit_q = Some limit\<rparr>])
      = Some (take (nat limit) (drop (n * nat limit) (available_products db)))"
    by (simp add: p)
  from collect_append [OF Suc this] show ?case
    by (simp only: u map_append list.map take_next_page)
qed

lemma set_take_drop: "set (take n (drop m xs)) \<subseteq> set xs"
  by (meson set_take_subset set_drop_subset subset_trans)

lemma findMany_subset:
  assumes "product_findMany_available skip tk db = Inr rows"
  shows "set rows \<subseteq> set (available_products db)"
proof (cases "0 \<le> tk")
  case True
  with assms have "rows = take (nat tk) (drop (nat skip) (available_products db))"
    by (simp add: product_findMany_available_def Let_def split: if_splits)
  then show ?thesis by (simp only: set_take_drop)
next
  case False
  with assms have "rows = rev (take (nat (- tk)) (drop (nat skip) (rev (available_products db))))"
    by (simp add: product_findMany_available_def Let_def split: if_splits)
  then have "set rows = set (take (nat (- tk)) (drop (nat skip) (rev (available_products db))))"
    by (simp only: set_rev)
  also have "\<dots> \<subseteq> set (rev (available_products db))" by (rule set_take_drop)
  finally show ?thesis by (simp only: set_rev)
qed

lemma findAll_data_available:
  assumes "findAll db q = Inr r" "x \<in> set (data_r r)"
  shows "x \<in> set (product_rows db) \<and> available_p x"
proof -
  from assms(1) obtain skip tk where "product_findMany_available skip tk db = Inr (data_r r)"
    by (auto simp: findAll_def Let_def split: sum.splits)
  from findMany_subset [OF this] assms(2) have "x \<in> set (available_products db)" by blast
  then show ?thesis by (simp add: available_products_def)
qed

section \<open>Rows and their ids\<close>

lemma fold_max_ge_init: "(a::int) \<le> fold max xs a"
  by (induction xs arbitrary: a) (auto intro: order_trans [OF max.cobounded2])

lemma fold_max_ge_mem: "(x::int) \<in> set xs \<Longrightarrow> x \<le> fold max xs a"
proof (induction xs arbitrary: a)
  case Nil then show ?case by simp
next
  case (Cons y ys)
  show ?case
  proof (cases "x = y")
    case True
    have "max y a \<le> fold max ys (max y a)" by (rule fold_max_ge_init)
    with True show ?thesis by simp
  next
    case False
    with Cons show ?thesis by simp
  qed
qed

lemma same_id_same_row:
  assumes "distinct (map id_p xs)" "r \<in> set xs" "x \<in> set xs" "id_p x = id_p r"
  shows "x = r"
proof -
  from assms(1) have "inj_on id_p (set xs)" by (simp add: distinct_map)
  with assms(2-4) show ?thesis by (auto dest: inj_onD)
qed

lemma map_update_distinct:
  assumes "distinct (map id_p xs)" "r \<in> set xs"
  shows "map (\<lambda>x. if id_p x = id_p r then f x else x) xs = map (\<lambda>x. if x = r then f r else x) xs"
proof (rule map_cong [OF refl])
  fix x assume "x \<in> set xs"
  with assms show "(if id_p x = id_p r then f x else x) = (if x = r then f r else x)"
    by (auto dest: same_id_same_row)
qed

lemma map_keep_id:
  assumes "\<And>x. id_p (f x) = id_p x"
  shows "map id_p (map (\<lambda>x. if id_p x = j then f x else x) xs) = map id_p xs"
proof (induction xs)
  case Nil show ?case by simp
next
  case (Cons a xs)
  then show ?case using assms [of a] by (cases "id_p a = j") simp_all
qed

lemma map_keep_unavailable:
  assumes "\<And>x. id_p (f x) = id_p x" "\<And>x. available_p (f x) \<Longrightarrow> available_p x"
      and "\<forall>r\<in>set xs. id_p r = i \<longrightarrow> \<not> available_p r"
  shows "\<forall>r\<in>set (map (\<lambda>x. if id_p x = j then f x else x) xs). id_p r = i \<longrightarrow> \<not> available_p r"
proof (intro ballI impI)
  fix r assume r: "r \<in> set (map (\<lambda>x. if id_p x = j then f x else x) xs)" and ri: "id_p r = i"
  from r [unfolded set_map] obtain x where x: "x \<in> set xs" "r = (if id_p x = j then f x else x)"
    by blast
  from x(2) assms(1) [of x] ri have "id_p x = i" by (simp split: if_splits)
  with assms(3) x(1) have n: "\<not> available_p x" by blast
  show "\<not> available_p r"
  proof (cases "id_p x = j")
    case True with x(2) n assms(2) [of x] show ?thesis by auto
  next
    case False with x(2) n show ?thesis by simp
  qed
qed

lemma rows_made_unavailable:
  assumes "\<And>x. \<not> available_p (f x)"
  shows "\<forall>r\<in>set (map (\<lambda>x. if id_p x = i then f x else x) xs). id_p r = i \<longrightarrow> \<not> available_p r"
proof (intro ballI impI)
  fix r assume r: "r \<in> set (map (\<lambda>x. if id_p x = i then f x else x) xs)" and ri: "id_p r = i"
  from r [unfolded set_map] obtain x where x: "r = (if id_p x = i then f x else x)" by blast
  show "\<not> available_p r"
  proof (cases "id_p x = i")
    case True with x assms [of x] show ?thesis by simp
  next
    case False with x ri show ?thesis by simp
  qed
qed

section \<open>The calls of the service, one by one\<close>

lemma findOne_absent:
  "(\<forall>r\<in>set (product_rows db). id_p r = i \<longrightarrow> \<not> available_p r) \<Longrightarrow> findOne db i = Inl (NotFoundException i)"
  by (auto simp: findOne_def product_findFirst_def find_None_iff split: option.splits)

lemma findOne_present:
  "findOne db i = Inr p \<Longrightarrow> p \<in> set (product_rows db) \<and> id_p p = i \<and> available_p p"
  by (auto simp: findOne_def product_findFirst_def find_Some_iff split: option.splits)

lemma findOne_cases:
  "findOne db i = Inl (NotFoundException i) \<or> (\<exists>p. findOne db i = Inr p)"
  by (simp add: findOne_def split: option.splits)

lemma findOne_found:
  assumes "r \<in> set (product_rows db)" "id_p r = i" "available_p r"
  shows "\<exists>p. findOne db i = Inr p \<and> p \<in> set (product_rows db) \<and> id_p p = i \<and> available_p p"
proof -
  from assms have "findOne db i \<noteq> Inl (NotFoundException i)"
    by (auto simp: findOne_def product_findFirst_def find_None_iff split: option.splits)
  with findOne_cases [of db i] obtain p where "findOne db i = Inr p" by auto
  with findOne_present [OF this] show ?thesis by simp
qed

lemma apply_data_keep_id: "id_d d = None \<Longrightarrow> id_p (apply_data now d r) = id_p r"
  by (simp add: apply_data_def)

lemma product_update_result:
  "product_update now j d db = (db, Inl PersistenceError) \<or>
   (\<exists>r. product_update now j d db =
      (db\<lparr>product_rows := map (\<lambda>x. if id_p x = j then apply_data now d x else x) (product_rows db)\<rparr>, Inr r))"
  by (simp add: product_update_def Let_def split: option.splits)

lemma product_update_keep_id:
  assumes "id_d d = None" "r \<in> set (product_rows db)" "id_p r = i"
  shows "\<exists>r0. find (\<lambda>r. id_p r = i) (product_rows db) = Some r0 \<and> r0 \<in> set (product_rows db) \<and> id_p r0 = i \<and>
     product_update now i d db =
       (db\<lparr>product_rows := map (\<lambda>x. if id_p x = i then apply_data now d x else x) (product_rows db)\<rparr>,
        Inr (apply_data now d r0))"
proof -
  from assms(2,3) obtain r0 where f: "find (\<lambda>r. id_p r = i) (product_rows db) = Some r0"
    by (cases "find (\<lambda>r. id_p r = i) (product_rows db)") (auto simp: find_None_iff)
  then have m: "r0 \<in> set (product_rows db)" "id_p r0 = i"
    by (auto simp: find_Some_iff)
  show ?thesis using f m assms(1)
    by (simp add: product_update_def Let_def apply_data_keep_id)
qed

lemma update_absent:
  "(\<forall>r\<in>set (product_rows db). id_p r = i \<longrightarrow> \<not> available_p r) \<Longrightarrow>
     update t db i dto = (db, Inl (NotFoundException i))"
  by (simp add: update_def findOne_absent)

lemma remove_absent:
  "(\<forall>r\<in>set (product_rows db). id_p r = i \<longrightarrow> \<not> available_p r) \<Longrightarrow>
     remove t db i = (db, Inl (NotFoundException i))"
  by (simp add: remove_def findOne_absent)

lemma soft_delete_row:
  "id_p (apply_data t soft_delete x) = id_p x \<and> \<not> available_p (apply_data t soft_delete x)"
  by (simp add: apply_data_def soft_delete_def)

lemma remove_present:
  assumes "r \<in> set (product_rows db)" "id_p r = i" "available_p r"
  shows "\<exists>r0. r0 \<in> set (product_rows db) \<and> id_p r0 = i \<and>
     remove t db i =
       (db\<lparr>product_rows := map (\<lambda>x. if id_p x = i then apply_data t soft_delete x else x) (product_rows db)\<rparr>,
        Inr (apply_data t soft_delete r0))"
proof -
  from findOne_found [OF assms] obtain p where p: "findOne db i = Inr p" by auto
  have "id_d soft_delete = None" by (simp add: soft_delete_def)
  from product_update_keep_id [OF this assms(1,2), of t] obtain r0 where
    r0: "r0 \<in> set (product_rows db)" "id_p r0 = i" and
    u: "product_update t i soft_delete db =
       (db\<lparr>product_rows := map (\<lambda>x. if id_p x = i then apply_data t soft_delete x else x) (product_rows db)\<rparr>,
        Inr (apply_data t soft_delete r0))" by blast
  from p u have "remove t db i =
       (db\<lparr>product_rows := map (\<lambda>x. if id_p x = i then apply_data t soft_delete x else x) (product_rows db)\<rparr>,
        Inr (apply_data t soft_delete r0))" by (simp add: remove_def)
  with r0 show ?thesis by blast
qed

lemma update_present:
  assumes "r \<in> set (product_rows db)" "id_p r = i" "available_p r"
    and d: "d = \<lparr>id_d = None, name_d = name_u dto, price_d = price_u dto, available_d = None\<rparr>"
  shows "\<exists>r0. r0 \<in> set (product_rows db) \<and> id_p r0 = i \<and>
     update t db i dto =
       (db\<lparr>product_rows := map (\<lambda>x. if id_p x = i then apply_data t d x else x) (product_rows db)\<rparr>,
        Inr (apply_data t d r0))"
proof -
  from findOne_found [OF assms(1-3)] obtain p where p: "findOne db i = Inr p" by auto
  have "id_d d = None" by (simp add: d)
  from product_update_keep_id [OF this assms(1,2), of t] obtain r0 where
    r0: "r0 \<in> set (product_rows db)" "id_p r0 = i" and
    u: "product_update t i d db =
       (db\<lparr>product_rows := map (\<lambda>x. if id_p x = i then apply_data t d x else x) (product_rows db)\<rparr>,
        Inr (apply_data t d r0))" by blast
  from p u have "update t db i dto =
       (db\<lparr>product_rows := map (\<lambda>x. if id_p x = i then apply_data t d x else x) (product_rows db)\<rparr>,
        Inr (apply_data t d r0))" by (simp add: update_def d)
  with r0 show ?thesis by blast
qed

section \<open>What a sequence of calls preserves\<close>

lemma removed_map:
  assumes "removed i db"
      and "\<And>x. id_p (f x) = id_p x" "\<And>x. available_p (f x) \<Longrightarrow> available_p x"
  shows "removed i (db\<lparr>product_rows := map (\<lambda>x. if id_p x = j then f x else x) (product_rows db)\<rparr>)"
proof -
  let ?xs = "map (\<lambda>x. if id_p x = j then f x else x) (product_rows db)"
  have "set (map id_p ?xs) = set (map id_p (product_rows db))"
    by (simp only: map_keep_id [of f, OF assms(2)])
  then have 1: "id_p ` set ?xs = id_p ` set (product_rows db)" by (simp only: set_map)
  have 2: "\<forall>r\<in>set ?xs. id_p r = i \<longrightarrow> \<not> available_p r"
    using assms by (intro map_keep_unavailable) (simp_all add: removed_def)
  have "product_rows (db\<lparr>product_rows := ?xs\<rparr>) = ?xs" by simp
  with 1 2 assms(1) show ?thesis by (simp only: removed_def)
qed

lemma removed_product_update:
  assumes "removed i db" "id_d d = None" "available_d d \<noteq> Some True"
  shows "removed i (fst (product_update now j d db))"
proof -
  have k1: "\<And>x. id_p (apply_data now d x) = id_p x"
    using assms(2) by (simp add: apply_data_def)
  have k2: "\<And>x. available_p (apply_data now d x) \<Longrightarrow> available_p x"
    using assms(3) by (cases "available_d d") (auto simp: apply_data_def split: if_splits)
  from product_update_result [of now j d db]
  consider "product_update now j d db = (db, Inl PersistenceError)"
    | r where "product_update now j d db =
        (db\<lparr>product_rows := map (\<lambda>x. if id_p x = j then apply_data now d x else x) (product_rows db)\<rparr>, Inr r)"
    by blast
  then show ?thesis
  proof cases
    case 1 with assms(1) show ?thesis by simp
  next
    case 2
    then have "fst (product_update now j d db) =
        db\<lparr>product_rows := map (\<lambda>x. if id_p x = j then apply_data now d x else x) (product_rows db)\<rparr>"
      by simp
    then show ?thesis by (simp only: removed_map [of i db "apply_data now d", OF assms(1) k1 k2])
  qed
qed

lemma removed_create:
  assumes "removed i db"
  shows "removed i (fst (create now db dto))"
proof -
  define M where "M = fold max (map id_p (product_rows db)) (sqlite_sequence db)"
  from assms obtain r where r: "r \<in> set (product_rows db)" "id_p r = i"
    by (auto simp: removed_def)
  then have "i \<le> M" unfolding M_def by (intro fold_max_ge_mem) auto
  then have n: "M + 1 \<noteq> i" by simp
  have "product_rows (fst (create now db dto)) = product_rows db @
      [\<lparr>id_p = M + 1, name_p = name_c dto, price_p = price_c dto,
        available_p = True, createdAt_p = now, updatedAt_p = now\<rparr>]"
    by (simp add: create_def product_create_def Let_def M_def)
  with assms n show ?thesis by (simp add: removed_def)
qed

lemma removed_update:
  assumes "removed i db"
  shows "removed i (fst (update now db j dto))"
proof (cases "findOne db j")
  case (Inl e) with assms show ?thesis by (simp add: update_def)
next
  case (Inr p)
  let ?d = "\<lparr>id_d = None, name_d = name_u dto, price_d = price_u dto, available_d = None\<rparr>"
  have "removed i (fst (product_update now j ?d db))"
    using assms by (rule removed_product_update) simp_all
  with Inr show ?thesis by (simp add: update_def)
qed

lemma removed_remove:
  assumes "removed i db"
  shows "removed i (fst (remove now db j))"
proof (cases "findOne db j")
  case (Inl e) with assms show ?thesis by (simp add: remove_def)
next
  case (Inr p)
  have "removed i (fst (product_update now j soft_delete db))"
    using assms by (rule removed_product_update) (simp_all add: soft_delete_def)
  with Inr show ?thesis by (simp add: remove_def)
qed

lemma removed_step:
  assumes "removed i db"
  shows "removed i (fst (step now db rq))"
proof (cases rq)
  case (Create dto)
  with removed_create [OF assms, of now dto] show ?thesis
    by (simp add: split_beta)
next
  case (FindAll q) with assms show ?thesis by simp
next
  case (FindOne j) with assms show ?thesis by simp
next
  case (Update j dto)
  with removed_update [OF assms, of now j dto] show ?thesis by (simp add: split_beta)
next
  case (Remove j)
  with removed_remove [OF assms, of now j] show ?thesis by (simp add: split_beta)
qed

lemma removed_run: "removed i db \<Longrightarrow> removed i (run db evs)"
proof (induction db evs rule: run.induct)
  case (1 db) then show ?case by simp
next
  case (2 db now rq rest)
  from "2.prems" have "removed i (fst (step now db rq))" by (rule removed_step)
  then have "removed i (run (fst (step now db rq)) rest)" by (rule "2.IH")
  then show ?case by (simp only: run.simps)
qed

lemma removed_after_remove:
  assumes "remove now db i = (db', Inr q)"
  shows "removed i db'"
proof -
  have "\<exists>p. findOne db i = Inr p"
  proof (cases "findOne db i")
    case (Inl e) with assms show ?thesis by (simp add: remove_def)
  next
    case (Inr p) then show ?thesis by simp
  qed
  then obtain p where p: "findOne db i = Inr p" by blast
  from findOne_present [OF p] have m: "p \<in> set (product_rows db)" "id_p p = i" "available_p p"
    by simp_all
  let ?xs = "map (\<lambda>x. if id_p x = i then apply_data now soft_delete x else x) (product_rows db)"
  from remove_present [OF m, of now] assms have "db' = db\<lparr>product_rows := ?xs\<rparr>" by auto
  then have db': "product_rows db' = ?xs" by simp
  have "set (map id_p ?xs) = set (map id_p (product_rows db))"
    by (simp only: map_keep_id [of "apply_data now soft_delete"] soft_delete_row)
  then have "id_p ` set ?xs = id_p ` set (product_rows db)" by (simp only: set_map)
  with m have 1: "i \<in> id_p ` set ?xs" by blast
  have 2: "\<forall>r\<in>set ?xs. id_p r = i \<longrightarrow> \<not> available_p r"
    by (rule rows_made_unavailable) (simp add: soft_delete_row)
  from 1 2 show ?thesis by (simp only: removed_def db')
qed

lemma stamped_product_update:
  assumes "stamped t0 db" "t0 \<le> now"
  shows "stamped now (fst (product_update now j d db))"
proof -
  let ?xs = "map (\<lambda>x. if id_p x = j then apply_data now d x else x) (product_rows db)"
  have a: "\<And>x. createdAt_p (apply_data now d x) = createdAt_p x \<and>
      (updatedAt_p (apply_data now d x) = now \<or> updatedAt_p (apply_data now d x) = updatedAt_p x)"
    by (simp add: apply_data_def)
  have s: "stamped now db" using assms by (auto simp: stamped_def)
  have "\<forall>r\<in>set ?xs. createdAt_p r \<le> updatedAt_p r \<and> createdAt_p r \<le> now"
  proof
    fix r assume "r \<in> set ?xs"
    then obtain x where x: "x \<in> set (product_rows db)" "r = (if id_p x = j then apply_data now d x else x)"
      unfolding set_map by blast
    from s x(1) have "createdAt_p x \<le> updatedAt_p x \<and> createdAt_p x \<le> now"
      by (simp add: stamped_def)
    with x(2) a [of x] show "createdAt_p r \<le> updatedAt_p r \<and> createdAt_p r \<le> now"
      by (cases "id_p x = j") auto
  qed
  then have "stamped now (db\<lparr>product_rows := ?xs\<rparr>)" by (simp add: stamped_def)
  with s product_update_result [of now j d db] show ?thesis by auto
qed

lemma stamped_step:
  assumes "stamped t0 db" "t0 \<le> now"
  shows "stamped now (fst (step now db rq))"
proof -
  have s: "stamped now db" using assms by (auto simp: stamped_def)
  show ?thesis
  proof (cases rq)
    case (Create dto)
    with s show ?thesis
      by (auto simp: stamped_def create_def product_create_def Let_def)
  next
    case (FindAll q) with s show ?thesis by simp
  next
    case (FindOne j) with s show ?thesis by simp
  next
    case (Update j dto)
    have "stamped now (fst (update now db j dto))"
      using s stamped_product_update [OF assms, of j]
      by (simp add: update_def split: sum.splits)
    with Update show ?thesis by (simp add: split_beta)
  next
    case (Remove j)
    have "stamped now (fst (remove now db j))"
      using s stamped_product_update [OF assms, of j]
      by (simp add: remove_def split: sum.splits)
    with Remove show ?thesis by (simp add: split_beta)
  qed
qed

lemma stamped_run:
  assumes "stamped t0 db" "sorted (map fst evs)" "\<forall>e\<in>set evs. t0 \<le> fst e"
  shows "\<exists>t. stamped t (run db evs)"
  using assms
proof (induction db evs arbitrary: t0 rule: run.induct)
  case (1 db) then show ?case by auto
next
  case (2 db now rq rest)
  from "2.prems"(3) have "t0 \<le> now" by simp
  with "2.prems"(1) have a: "stamped now (fst (step now db rq))" by (rule stamped_step)
  from "2.prems"(2) have b: "sorted (map fst rest)" "\<forall>x\<in>set rest. now \<le> fst x" by auto
  from "2.IH" [OF a b] show ?case by (simp only: run.simps)
qed

section \<open>The primary key holds in every reachable state\<close>

lemma primary_key_product_update:
  assumes "primary_key db" "id_d d = None"
  shows "primary_key (fst (product_update now j d db))"
proof -
  have k: "\<And>x. id_p (apply_data now d x) = id_p x"
    using assms(2) by (simp add: apply_data_def)
  let ?xs = "map (\<lambda>x. if id_p x = j then apply_data now d x else x) (product_rows db)"
  have e: "map id_p ?xs = map id_p (product_rows db)"
    by (rule map_keep_id [of "apply_data now d", OF k])
  have sel: "product_rows (db\<lparr>product_rows := ?xs\<rparr>) = ?xs" by simp
  from assms(1) have "distinct (map id_p ?xs)" by (simp only: e primary_key_def)
  then have "primary_key (db\<lparr>product_rows := ?xs\<rparr>)" by (simp only: primary_key_def sel)
  with assms(1) product_update_result [of now j d db] show ?thesis by auto
qed

lemma primary_key_create:
  assumes "primary_key db"
  shows "primary_key (fst (create now db dto))"
proof -
  define M where "M = fold max (map id_p (product_rows db)) (sqlite_sequence db)"
  have "\<forall>x\<in>set (map id_p (product_rows db)). x \<le> M"
    unfolding M_def by (intro ballI fold_max_ge_mem)
  then have n: "M + 1 \<notin> set (map id_p (product_rows db))" by auto
  have "product_rows (fst (create now db dto)) = product_rows db @
      [\<lparr>id_p = M + 1, name_p = name_c dto, price_p = price_c dto,
        available_p = True, createdAt_p = now, updatedAt_p = now\<rparr>]"
    by (simp add: create_def product_create_def Let_def M_def)
  with assms n show ?thesis by (simp add: primary_key_def)
qed

lemma primary_key_step:
  assumes "primary_key db"
  shows "primary_key (fst (step now db rq))"
proof (cases rq)
  case (Create dto)
  with primary_key_create [OF assms, of now dto] show ?thesis by (simp add: split_beta)
next
  case (FindAll q) with assms show ?thesis by simp
next
  case (FindOne j) with assms show ?thesis by simp
next
  case (Update j dto)
  have "primary_key (fst (update now db j dto))"
    using assms primary_key_product_update [OF assms, of _ now j]
    by (cases "findOne db j") (simp_all add: update_def)
  with Update show ?thesis by (simp add: split_beta)
next
  case (Remove j)
  have "primary_key (fst (remove now db j))"
    using assms primary_key_product_update [OF assms, of soft_delete now j]
    by (cases "findOne db j") (simp_all add: remove_def soft_delete_def)
  with Remove show ?thesis by (simp add: split_beta)
qed

lemma primary_key_run: "primary_key db \<Longrightarrow> primary_key (run db evs)"
proof (induction db evs rule: run.induct)
  case (1 db) then show ?case by simp
next
  case (2 db now rq rest)
  from "2.prems" have "primary_key (fst (step now db rq))" by (rule primary_key_step)
  then have "primary_key (run (fst (step now db rq)) rest)" by (rule "2.IH")
  then show ?case by (simp only: run.simps)
qed

lemma primary_key_reachable: "primary_key (run empty_db evs)"
  by (rule primary_key_run) (simp add: primary_key_def empty_db_def)

section \<open>The claims\<close>

text \<open>
  C1, soft-delete invisibility.  A product \<open>p\<close> is created; after any sequence of calls
  it is removed; then, after any further sequence of calls, \<open>findOne\<close> on its id fails
  with \<open>NotFoundException\<close> carrying that id, and no \<open>findAll\<close>, whatever the page and the
  limit, returns a row with that id.
\<close>

theorem soft_delete_invisibility:
  assumes "create t1 db1 dto = (db2, Inr p)"
      and "remove t2 (run db2 evs1) (id_p p) = (db4, Inr q)"
  shows "findOne (run db4 evs2) (id_p p) = Inl (NotFoundException (id_p p)) \<and>
         (\<forall>pg r. findAll (run db4 evs2) pg = Inr r \<longrightarrow> id_p p \<notin> id_p ` set (data_r r))"
proof -
  from assms(2) have "removed (id_p p) db4" by (rule removed_after_remove)
  then have g: "removed (id_p p) (run db4 evs2)" by (rule removed_run)
  then have "findOne (run db4 evs2) (id_p p) = Inl (NotFoundException (id_p p))"
    by (intro findOne_absent) (simp add: removed_def)
  moreover have "\<forall>pg r. findAll (run db4 evs2) pg = Inr r \<longrightarrow> id_p p \<notin> id_p ` set (data_r r)"
  proof (intro allI impI notI)
    fix pg r assume r: "findAll (run db4 evs2) pg = Inr r" and "id_p p \<in> id_p ` set (data_r r)"
    then obtain x where x: "x \<in> set (data_r r)" "id_p x = id_p p" by auto
    from findAll_data_available [OF r x(1)] g x(2) show False by (auto simp: removed_def)
  qed
  ultimately show ?thesis by simp
qed

theorem soft_delete_invisibility_witness:
  "create 50 shop new_webcam =
     (\<lparr>product_rows = [laptop, mouse, keyboard, monitor, webcam], sqlite_sequence = 5\<rparr>, Inr webcam)
   \<and> remove 60
        (run \<lparr>product_rows = [laptop, mouse, keyboard, monitor, webcam], sqlite_sequence = 5\<rparr>
           [(55, Update 5 (new_price (Some 5)))])
        (id_p webcam) =
     (\<lparr>product_rows = [laptop, mouse, keyboard, monitor,
          webcam\<lparr>price_p := 899.99, available_p := False, updatedAt_p := 60\<rparr>],
        sqlite_sequence = 5\<rparr>,
      Inr (webcam\<lparr>price_p := 899.99, available_p := False, updatedAt_p := 60\<rparr>))
   \<and> findOne
        (run \<lparr>product_rows = [laptop, mouse, keyboard, monitor,
                webcam\<lparr>price_p := 899.99, available_p := False, updatedAt_p := 60\<rparr>],
              sqlite_sequence = 5\<rparr>
           [(70, Update 5 (new_price None)), (80, Create new_webcam)])
        (id_p webcam) = Inl (NotFoundException 5)
   \<and> findAll
        (run \<lparr>product_rows = [laptop, mouse, keyboard, monitor,
                webcam\<lparr>price_p := 899.99, available_p := False, updatedAt_p := 60\<rparr>],
              sqlite_sequence = 5\<rparr>
           [(70, Update 5 (new_price None)), (80, Create new_webcam)])
        \<lparr>page_q = None, limit_q = None\<rparr> =
      Inr \<lparr>data_r = [laptop, keyboard, monitor,
                       webcam\<lparr>id_p := 6, createdAt_p := 80, updatedAt_p := 80\<rparr>],
           meta_r = \<lparr>page_m = 1, total_m = 4, lastPage_m = Num 1\<rparr>\<rparr>
   \<and> id_p webcam \<notin> id_p ` set [laptop, keyboard, monitor,
                       webcam\<lparr>id_p := 6, createdAt_p := 80, updatedAt_p := 80\<rparr>]"
  (is "?h1 \<and> ?h2 \<and> ?c1 \<and> ?h3 \<and> ?c2")
proof -
  have h1: ?h1
    by (simp add: create_def product_create_def Let_def shop_def laptop_def mouse_def
        keyboard_def monitor_def webcam_def new_webcam_def)
  have h2: ?h2
    by (simp add: remove_def update_def findOne_def product_findFirst_def product_update_def
        apply_data_def soft_delete_def Let_def new_price_def laptop_def mouse_def keyboard_def
        monitor_def webcam_def)
  have h3: ?h3
    by (simp add: findAll_def product_findMany_available_def available_products_def
        product_count_available_def Math_ceil_div_def create_def product_create_def
        update_def findOne_def product_findFirst_def Let_def new_price_def new_webcam_def
        laptop_def mouse_def keyboard_def monitor_def webcam_def)
  from soft_delete_invisibility [OF h1 h2, of "[(70, Update 5 (new_price None)), (80, Create new_webcam)]"]
  have c1: ?c1 and a: "\<And>pg r. findAll
        (run \<lparr>product_rows = [laptop, mouse, keyboard, monitor,
                webcam\<lparr>price_p := 899.99, available_p := False, updatedAt_p := 60\<rparr>],
              sqlite_sequence = 5\<rparr>
           [(70, Update 5 (new_price None)), (80, Create new_webcam)]) pg = Inr r
        \<Longrightarrow> id_p webcam \<notin> id_p ` set (data_r r)"
    by (simp_all add: webcam_def)
  from a [OF h3] have c2: ?c2 by simp
  from h1 h2 c1 h3 c2 show ?thesis by (intro conjI)
qed

text \<open>
  C2, pagination coverage.  For a page size \<open>limit \<ge> 1\<close>, the scan of the pages
  \<open>1, ..., lastPage\<close> succeeds on every page, and the concatenation of the \<open>data\<close> arrays is
  the list of the available products: the same rows with the same multiplicities, as
  many as the count, and with pairwise different ids under the primary key.
\<close>

theorem pagination_coverage:
  assumes "1 \<le> limit"
  shows "\<exists>ps. scan db limit = Some ps \<and>
              ps = available_products db \<and>
              mset ps = mset (filter available_p (product_rows db)) \<and>
              int (length ps) = product_count_available db \<and>
              (primary_key db \<longrightarrow> distinct (map id_p ps))"
proof -
  define N where "N = product_count_available db"
  define L where "L = \<lceil>real_of_int N / real_of_int limit\<rceil>"
  have l: "0 < limit" using assms by simp
  have N0: "0 \<le> N" by (simp add: N_def product_count_available_def)
  have L0: "0 \<le> L" unfolding L_def using l N0 by (rule ceil_nonneg)
  have "N \<le> L * limit" using ceil_bounds [OF l, of N] by (simp add: L_def)
  then have "length (available_products db) \<le> nat L * nat limit"
    using length_available_products [of db] L0 l
    by (simp add: N_def nat_mult_distrib [symmetric] le_nat_iff)
  then have t: "take (nat L * nat limit) (available_products db) = available_products db" by simp
  have i: "int (nat L) = L" using L0 by simp
  have "scan db limit = collect (map (\<lambda>k. findAll db \<lparr>page_q = Some k, limit_q = Some limit\<rparr>) [1..L])"
    by (simp add: scan_def findAll_page [OF assms] L_def N_def)
  also have "\<dots> = Some (take (nat L * nat limit) (available_products db))"
    using pages_prefix [OF assms, of db "nat L"] by (simp only: i)
  finally have sc: "scan db limit = Some (available_products db)"
    by (simp only: t)
  have m: "mset (available_products db) = mset (filter available_p (product_rows db))"
    by (simp add: available_products_def)
  have d: "primary_key db \<longrightarrow> distinct (map id_p (available_products db))"
  proof
    assume "primary_key db"
    then have "distinct (map id_p (filter available_p (product_rows db)))"
      by (simp add: primary_key_def distinct_map_filter)
    moreover have "mset (map id_p (available_products db)) = mset (map id_p (filter available_p (product_rows db)))"
      using m by (metis mset_map)
    ultimately show "distinct (map id_p (available_products db))"
      by (metis mset_eq_imp_distinct_iff)
  qed
  show ?thesis
  proof (intro exI conjI)
    show "scan db limit = Some (available_products db)" by (rule sc)
    show "available_products db = available_products db" by (rule refl)
    show "mset (available_products db) = mset (filter available_p (product_rows db))" by (rule m)
    show "int (length (available_products db)) = product_count_available db"
      by (rule length_available_products)
    show "primary_key db \<longrightarrow> distinct (map id_p (available_products db))" by (rule d)
  qed
qed

theorem pagination_coverage_witness:
  "(1::int) \<le> 2 \<and> primary_key shop \<and>
   findAll shop \<lparr>page_q = Some 1, limit_q = Some 2\<rparr> =
     Inr \<lparr>data_r = [laptop, keyboard], meta_r = \<lparr>page_m = 1, total_m = 3, lastPage_m = Num 2\<rparr>\<rparr> \<and>
   findAll shop \<lparr>page_q = Some 2, limit_q = Some 2\<rparr> =
     Inr \<lparr>data_r = [monitor], meta_r = \<lparr>page_m = 2, total_m = 3, lastPage_m = Num 2\<rparr>\<rparr> \<and>
   scan shop 2 = Some [laptop, keyboard, monitor] \<and>
   filter available_p (product_rows shop) = [laptop, keyboard, monitor] \<and>
   distinct (map id_p [laptop, keyboard, monitor])"
  (is "?h1 \<and> ?h2 \<and> ?p1 \<and> ?p2 \<and> ?c1 \<and> ?c2 \<and> ?c3")
proof -
  have h1: ?h1 by simp
  have h2: ?h2
    by (simp add: primary_key_def shop_def laptop_def mouse_def keyboard_def monitor_def)
  have a: "available_products shop = [laptop, keyboard, monitor]"
    by (simp add: available_products_def shop_def laptop_def mouse_def keyboard_def monitor_def)
  have n: "product_count_available shop = 3"
    using length_available_products [of shop] by (simp add: a)
  have p1: ?p1 using findAll_page [of 2 1 shop] by (simp add: a n)
  have p2: ?p2 using findAll_page [of 2 2 shop] by (simp add: a n)
  have c2: ?c2
    by (simp add: shop_def laptop_def mouse_def keyboard_def monitor_def)
  from pagination_coverage [OF h1, of shop] h2
  have c1: ?c1 and c3: ?c3 by (simp_all add: a)
  from h1 h2 p1 p2 c1 c2 c3 show ?thesis by (intro conjI)
qed

text \<open>
  C3, lastPage correctness.  For \<open>limit \<ge> 1\<close> and any page, given or left to its default,
  whenever \<open>findAll\<close> returns, \<open>meta.total\<close> is the number of rows with \<open>available = true\<close>,
  \<open>meta.lastPage\<close> is the ceiling of \<open>total / limit\<close>, and \<open>meta.lastPage\<close> is \<open>0\<close> exactly
  when \<open>meta.total\<close> is \<open>0\<close>; and \<open>findAll\<close> does return when the page is at least 1 or left
  to its default.
\<close>

theorem findAll_lastPage:
  assumes "1 \<le> limit"
  shows "(\<forall>r. findAll db \<lparr>page_q = pg, limit_q = Some limit\<rparr> = Inr r \<longrightarrow>
            total_m (meta_r r) = int (length (filter available_p (product_rows db))) \<and>
            lastPage_m (meta_r r) = Num \<lceil>real_of_int (total_m (meta_r r)) / real_of_int limit\<rceil> \<and>
            (lastPage_m (meta_r r) = Num 0 \<longleftrightarrow> total_m (meta_r r) = 0))
       \<and> (1 \<le> page \<longrightarrow> (\<exists>r. findAll db \<lparr>page_q = Some page, limit_q = Some limit\<rparr> = Inr r))
       \<and> (\<exists>r. findAll db \<lparr>page_q = None, limit_q = Some limit\<rparr> = Inr r)"
proof (intro conjI allI impI)
  fix r assume r: "findAll db \<lparr>page_q = pg, limit_q = Some limit\<rparr> = Inr r"
  have l: "limit \<noteq> 0" using assms by simp
  from r l have t: "total_m (meta_r r) = product_count_available db"
    and p: "lastPage_m (meta_r r) = Num \<lceil>real_of_int (product_count_available db) / real_of_int limit\<rceil>"
    by (auto simp: findAll_def Math_ceil_div_def Let_def split: sum.splits)
  show "total_m (meta_r r) = int (length (filter available_p (product_rows db)))"
    by (simp add: t product_count_available_def)
  show "lastPage_m (meta_r r) = Num \<lceil>real_of_int (total_m (meta_r r)) / real_of_int limit\<rceil>"
    by (simp add: t p)
  have "0 < limit" "0 \<le> product_count_available db"
    using assms by (simp_all add: product_count_available_def)
  from ceil_zero_iff [OF this]
  show "lastPage_m (meta_r r) = Num 0 \<longleftrightarrow> total_m (meta_r r) = 0"
    by (simp add: t p)
next
  assume "1 \<le> page"
  from findAll_page [OF assms this, of db]
  show "\<exists>r. findAll db \<lparr>page_q = Some page, limit_q = Some limit\<rparr> = Inr r" by simp
next
  have "findAll db \<lparr>page_q = None, limit_q = Some limit\<rparr> =
      findAll db \<lparr>page_q = Some 1, limit_q = Some limit\<rparr>"
    using findAll_defaults [of db None "Some limit"] by simp
  with findAll_page [OF assms, of 1 db]
  show "\<exists>r. findAll db \<lparr>page_q = None, limit_q = Some limit\<rparr> = Inr r" by simp
qed

theorem findAll_lastPage_witness:
  "(1::int) \<le> 2 \<and> (1::int) \<le> 2 \<and>
   findAll shop \<lparr>page_q = Some 2, limit_q = Some 2\<rparr> =
     Inr \<lparr>data_r = [monitor], meta_r = \<lparr>page_m = 2, total_m = 3, lastPage_m = Num 2\<rparr>\<rparr> \<and>
   int (length (filter available_p (product_rows shop))) = 3 \<and>
   \<lceil>real_of_int 3 / real_of_int 2\<rceil> = 2 \<and>
   findAll empty_db \<lparr>page_q = None, limit_q = Some 10\<rparr> =
     Inr \<lparr>data_r = [], meta_r = \<lparr>page_m = 1, total_m = 0, lastPage_m = Num 0\<rparr>\<rparr>"
  (is "?h1 \<and> ?h2 \<and> ?c1 \<and> ?c2 \<and> ?c3 \<and> ?c4")
proof -
  have h1: ?h1 by simp
  have a: "available_products shop = [laptop, keyboard, monitor]"
    by (simp add: available_products_def shop_def laptop_def mouse_def keyboard_def monitor_def)
  have n: "product_count_available shop = 3"
    using length_available_products [of shop] by (simp add: a)
  have c1: ?c1 using findAll_page [OF h1 h1, of shop] by (simp add: a n)
  from findAll_lastPage [OF h1, where db = shop and pg = "Some 2" and page = 2] c1
  have "total_m \<lparr>page_m = 2, total_m = 3, lastPage_m = Num 2\<rparr>
      = int (length (filter available_p (product_rows shop)))"
    by simp
  then have c2: ?c2 by simp
  have c3: ?c3 by simp
  have c4: ?c4
    by (simp add: findAll_def product_findMany_available_def available_products_def
        product_count_available_def Math_ceil_div_def Let_def empty_db_def)
  from h1 h1 c1 c2 c3 c4 show ?thesis by (intro conjI)
qed



text \<open>
  C4, update and remove on an id without an available row.  When no row with id \<open>i\<close> is
  available (the id never existed, or the product is soft-deleted), \<open>update\<close> and \<open>remove\<close>
  fail with \<open>NotFoundException\<close> carrying \<open>i\<close> and leave the database as it was.  When a
  row with id \<open>j\<close> is available, a first \<open>remove\<close> succeeds and a second one, on the
  database the first one left, fails with \<open>NotFoundException\<close> and changes nothing.
\<close>

theorem update_remove_not_found:
  "((\<forall>r\<in>set (product_rows db). id_p r = i \<longrightarrow> \<not> available_p r) \<longrightarrow>
      update t db i dto = (db, Inl (NotFoundException i)) \<and>
      remove t db i = (db, Inl (NotFoundException i)))
   \<and> ((\<exists>r\<in>set (product_rows db). id_p r = j \<and> available_p r) \<longrightarrow>
      (\<exists>db1 p. remove t1 db j = (db1, Inr p) \<and> remove t2 db1 j = (db1, Inl (NotFoundException j))))"
proof (intro conjI impI)
  assume a: "\<forall>r\<in>set (product_rows db). id_p r = i \<longrightarrow> \<not> available_p r"
  then show "update t db i dto = (db, Inl (NotFoundException i))" by (rule update_absent)
  from a show "remove t db i = (db, Inl (NotFoundException i))" by (rule remove_absent)
next
  assume "\<exists>r\<in>set (product_rows db). id_p r = j \<and> available_p r"
  then obtain r where r: "r \<in> set (product_rows db)" "id_p r = j" "available_p r" by auto
  define db1 where "db1 = db\<lparr>product_rows := map (\<lambda>x. if id_p x = j then apply_data t1 soft_delete x else x) (product_rows db)\<rparr>"
  from remove_present [OF r, of t1] obtain r0 where
    1: "remove t1 db j = (db1, Inr (apply_data t1 soft_delete r0))"
    by (auto simp: db1_def)
  have pr: "product_rows db1 = map (\<lambda>x. if id_p x = j then apply_data t1 soft_delete x else x) (product_rows db)"
    by (simp add: db1_def)
  have "\<forall>x\<in>set (product_rows db1). id_p x = j \<longrightarrow> \<not> available_p x"
    unfolding pr by (rule rows_made_unavailable) (simp add: soft_delete_row)
  then have "remove t2 db1 j = (db1, Inl (NotFoundException j))" by (rule remove_absent)
  with 1 show "\<exists>db1 p. remove t1 db j = (db1, Inr p) \<and> remove t2 db1 j = (db1, Inl (NotFoundException j))"
    by blast
qed

theorem update_remove_not_found_witness:
  "update 50 shop 2 (new_price (Some 2)) = (shop, Inl (NotFoundException 2)) \<and>
   remove 50 shop 2 = (shop, Inl (NotFoundException 2)) \<and>
   update 50 shop 9 (new_price (Some 9)) = (shop, Inl (NotFoundException 9)) \<and>
   remove 50 shop 9 = (shop, Inl (NotFoundException 9)) \<and>
   remove 60 shop 1 =
     (\<lparr>product_rows = [laptop\<lparr>available_p := False, updatedAt_p := 60\<rparr>, mouse, keyboard, monitor],
        sqlite_sequence = 4\<rparr>,
      Inr (laptop\<lparr>available_p := False, updatedAt_p := 60\<rparr>)) \<and>
   remove 70
     \<lparr>product_rows = [laptop\<lparr>available_p := False, updatedAt_p := 60\<rparr>, mouse, keyboard, monitor],
       sqlite_sequence = 4\<rparr> 1 =
     (\<lparr>product_rows = [laptop\<lparr>available_p := False, updatedAt_p := 60\<rparr>, mouse, keyboard, monitor],
        sqlite_sequence = 4\<rparr>,
      Inl (NotFoundException 1))"
  (is "?a1 \<and> ?a2 \<and> ?b1 \<and> ?b2 \<and> ?c1 \<and> ?c2")
proof -
  have s2: "\<forall>r\<in>set (product_rows shop). id_p r = 2 \<longrightarrow> \<not> available_p r"
    by (simp add: shop_def laptop_def mouse_def keyboard_def monitor_def)
  have s9: "\<forall>r\<in>set (product_rows shop). id_p r = 9 \<longrightarrow> \<not> available_p r"
    by (simp add: shop_def laptop_def mouse_def keyboard_def monitor_def)
  have s1: "\<exists>r\<in>set (product_rows shop). id_p r = 1 \<and> available_p r"
    by (simp add: shop_def laptop_def mouse_def keyboard_def monitor_def)
  from update_remove_not_found [where db = shop and i = 2 and t = 50 and dto = "new_price (Some 2)" and j = 1 and ?t1.0 = 60 and ?t2.0 = 70] s2
  have a1: ?a1 and a2: ?a2 by simp_all
  from update_remove_not_found [where db = shop and i = 9 and t = 50 and dto = "new_price (Some 9)" and j = 1 and ?t1.0 = 60 and ?t2.0 = 70] s9
  have b1: ?b1 and b2: ?b2 by simp_all
  have c1: ?c1
    by (simp add: remove_def findOne_def product_findFirst_def product_update_def apply_data_def
        soft_delete_def Let_def shop_def laptop_def mouse_def keyboard_def monitor_def)
  from update_remove_not_found [where db = shop and i = 2 and t = 50 and dto = "new_price (Some 2)" and j = 1 and ?t1.0 = 60 and ?t2.0 = 70] s1 obtain db1 p where
    "remove 60 shop 1 = (db1, Inr p)" "remove 70 db1 1 = (db1, Inl (NotFoundException 1))"
    by blast
  with c1 have c2: ?c2 by simp
  from a1 a2 b1 b2 c1 c2 show ?thesis by (intro conjI)
qed

text \<open>
  C5, \<open>findOne\<close> raises exactly when no available row has the id.  When a row with id \<open>i\<close>
  and \<open>available = true\<close> exists, \<open>findOne\<close> returns such a row of the table (the only one,
  under the primary key); otherwise, whether the id never existed or the product was
  soft-deleted, it fails with \<open>NotFoundException\<close> carrying \<open>i\<close>, the same error in both
  cases.
\<close>

theorem findOne_raises_iff:
  "(findOne db i = Inl (NotFoundException i) \<longleftrightarrow>
      \<not> (\<exists>r. r \<in> set (product_rows db) \<and> id_p r = i \<and> available_p r))
   \<and> ((\<exists>p. findOne db i = Inr p \<and> p \<in> set (product_rows db) \<and> id_p p = i \<and> available_p p) \<longleftrightarrow>
      (\<exists>r. r \<in> set (product_rows db) \<and> id_p r = i \<and> available_p r))
   \<and> (primary_key db \<and> p \<in> set (product_rows db) \<and> id_p p = i \<and> available_p p \<longrightarrow>
        findOne db i = Inr p)
   \<and> (i \<notin> id_p ` set (product_rows db) \<longrightarrow> findOne db i = Inl (NotFoundException i))
   \<and> (removed i db \<longrightarrow> findOne db i = Inl (NotFoundException i))"
proof (intro conjI impI iffI)
  assume "findOne db i = Inl (NotFoundException i)"
  then show "\<not> (\<exists>r. r \<in> set (product_rows db) \<and> id_p r = i \<and> available_p r)"
    by (auto dest: findOne_found)
next
  assume "\<not> (\<exists>r. r \<in> set (product_rows db) \<and> id_p r = i \<and> available_p r)"
  then show "findOne db i = Inl (NotFoundException i)" by (intro findOne_absent) auto
next
  assume "\<exists>p. findOne db i = Inr p \<and> p \<in> set (product_rows db) \<and> id_p p = i \<and> available_p p"
  then show "\<exists>r. r \<in> set (product_rows db) \<and> id_p r = i \<and> available_p r" by blast
next
  assume "\<exists>r. r \<in> set (product_rows db) \<and> id_p r = i \<and> available_p r"
  then show "\<exists>p. findOne db i = Inr p \<and> p \<in> set (product_rows db) \<and> id_p p = i \<and> available_p p"
    by (auto dest: findOne_found)
next
  assume a: "primary_key db \<and> p \<in> set (product_rows db) \<and> id_p p = i \<and> available_p p"
  then obtain q where q: "findOne db i = Inr q" "q \<in> set (product_rows db)" "id_p q = i"
    using findOne_found [of p db i] by auto
  from a q have "q = p"
    by (auto simp: primary_key_def intro: same_id_same_row)
  with q show "findOne db i = Inr p" by simp
next
  assume "i \<notin> id_p ` set (product_rows db)"
  then show "findOne db i = Inl (NotFoundException i)" by (intro findOne_absent) auto
next
  assume "removed i db"
  then show "findOne db i = Inl (NotFoundException i)"
    by (intro findOne_absent) (simp add: removed_def)
qed

theorem findOne_raises_iff_witness:
  "primary_key shop \<and> laptop \<in> set (product_rows shop) \<and> id_p laptop = 1 \<and> available_p laptop \<and>
   findOne shop 1 = Inr laptop \<and>
   9 \<notin> id_p ` set (product_rows shop) \<and> findOne shop 9 = Inl (NotFoundException 9) \<and>
   removed 2 shop \<and> findOne shop 2 = Inl (NotFoundException 2)"
  (is "?h1 \<and> ?h2 \<and> ?h3 \<and> ?h4 \<and> ?c1 \<and> ?h5 \<and> ?c2 \<and> ?h6 \<and> ?c3")
proof -
  have h1: ?h1
    by (simp add: primary_key_def shop_def laptop_def mouse_def keyboard_def monitor_def)
  have h2: ?h2 by (simp add: shop_def)
  have h3: ?h3 and h4: ?h4 by (simp_all add: laptop_def)
  have h5: ?h5
    by (simp add: shop_def laptop_def mouse_def keyboard_def monitor_def)
  have h6: ?h6
    by (simp add: removed_def shop_def laptop_def mouse_def keyboard_def monitor_def)
  from findOne_raises_iff [where db = shop and i = 1 and p = laptop] h1 h2 h3 h4 have c1: ?c1 by blast
  from findOne_raises_iff [where db = shop and i = 9 and p = laptop] h5 have c2: ?c2 by blast
  from findOne_raises_iff [where db = shop and i = 2 and p = laptop] h6 have c3: ?c3 by blast
  from h1 h2 h3 h4 c1 h5 c2 h6 c3 show ?thesis by (intro conjI)
qed

text \<open>
  C6, the frame of a price update.  Under the primary key, for an available product \<open>p\<close>
  with id \<open>i\<close>, \<open>update\<close> with a patch that has a price \<open>x\<close> and no name succeeds; the table
  after it is the table before it with \<open>p\<close> replaced by \<open>p\<close> with \<open>price = x\<close> and
  \<open>updatedAt = now\<close>, so that id, name, createdAt and available of \<open>p\<close> and every other row are
  as before; the updated row is returned.
\<close>

theorem update_price_frame:
  assumes "primary_key db" "p \<in> set (product_rows db)" "id_p p = i" "available_p p"
      and "name_u dto = None" "price_u dto = Some x"
  shows "update t db i dto =
           (db\<lparr>product_rows := map (\<lambda>r. if r = p then p\<lparr>price_p := x, updatedAt_p := t\<rparr> else r) (product_rows db)\<rparr>,
            Inr (p\<lparr>price_p := x, updatedAt_p := t\<rparr>))"
proof -
  define d where "d = \<lparr>id_d = None, name_d = name_u dto, price_d = price_u dto, available_d = None\<rparr>"
  from update_present [OF assms(2-4) d_def, of t] obtain r0 where
    r0: "r0 \<in> set (product_rows db)" "id_p r0 = i"
    and u: "update t db i dto =
       (db\<lparr>product_rows := map (\<lambda>x. if id_p x = i then apply_data t d x else x) (product_rows db)\<rparr>,
        Inr (apply_data t d r0))" by auto
  have "r0 = p" using assms(1-3) r0 by (auto simp: primary_key_def intro: same_id_same_row)
  have a: "apply_data t d p = p\<lparr>price_p := x, updatedAt_p := t\<rparr>"
    using assms(5,6) by (simp add: apply_data_def d_def)
  have "map (\<lambda>x. if id_p x = id_p p then apply_data t d x else x) (product_rows db)
      = map (\<lambda>x. if x = p then apply_data t d p else x) (product_rows db)"
    using assms(1,2) by (intro map_update_distinct) (simp_all add: primary_key_def)
  with u \<open>r0 = p\<close> a assms(3) show ?thesis by simp
qed

theorem update_price_frame_witness:
  "primary_key shop \<and> laptop \<in> set (product_rows shop) \<and> id_p laptop = 1 \<and> available_p laptop \<and>
   name_u (new_price (Some 1)) = None \<and> price_u (new_price (Some 1)) = Some 899.99 \<and>
   update 50 shop 1 (new_price (Some 1)) =
     (\<lparr>product_rows = [laptop\<lparr>price_p := 899.99, updatedAt_p := 50\<rparr>, mouse, keyboard, monitor],
        sqlite_sequence = 4\<rparr>,
      Inr (laptop\<lparr>price_p := 899.99, updatedAt_p := 50\<rparr>))"
  (is "?h1 \<and> ?h2 \<and> ?h3 \<and> ?h4 \<and> ?h5 \<and> ?h6 \<and> ?c")
proof -
  have h1: ?h1
    by (simp add: primary_key_def shop_def laptop_def mouse_def keyboard_def monitor_def)
  have h2: ?h2 by (simp add: shop_def)
  have h3: ?h3 and h4: ?h4 by (simp_all add: laptop_def)
  have h5: ?h5 and h6: ?h6 by (simp_all add: new_price_def)
  from update_price_frame [OF h1 h2 h3 h4 h5 h6, of 50] have c: ?c
    by (simp add: shop_def laptop_def mouse_def keyboard_def monitor_def)
  from h1 h2 h3 h4 h5 h6 c show ?thesis by (intro conjI)
qed

text \<open>
  C7, the id of the patch is ignored, not rejected.  \<open>update\<close> with a patch that has an id
  field does what it does with the same patch without the id field; on an available
  product it succeeds, the row it returns has the id it was called with, and the ids of
  the table are as before.
\<close>

theorem update_ignores_patch_id:
  "update t db i (dto\<lparr>id_u := Some j\<rparr>) = update t db i (dto\<lparr>id_u := None\<rparr>)
   \<and> ((\<exists>r. r \<in> set (product_rows db) \<and> id_p r = i \<and> available_p r) \<longrightarrow>
        (\<exists>db' p'. update t db i (dto\<lparr>id_u := Some j\<rparr>) = (db', Inr p') \<and> id_p p' = i \<and>
           map id_p (product_rows db') = map id_p (product_rows db)))"
proof (intro conjI impI)
  show "update t db i (dto\<lparr>id_u := Some j\<rparr>) = update t db i (dto\<lparr>id_u := None\<rparr>)"
    by (simp add: update_def)
next
  assume "\<exists>r. r \<in> set (product_rows db) \<and> id_p r = i \<and> available_p r"
  then obtain r where r: "r \<in> set (product_rows db)" "id_p r = i" "available_p r" by auto
  define d where "d = \<lparr>id_d = None, name_d = name_u (dto\<lparr>id_u := Some j\<rparr>),
     price_d = price_u (dto\<lparr>id_u := Some j\<rparr>), available_d = None\<rparr>"
  have k: "\<And>x. id_p (apply_data t d x) = id_p x" by (simp add: d_def apply_data_def)
  from update_present [OF r d_def, of t] obtain r0 where
    r0: "id_p r0 = i"
    and u: "update t db i (dto\<lparr>id_u := Some j\<rparr>) =
       (db\<lparr>product_rows := map (\<lambda>x. if id_p x = i then apply_data t d x else x) (product_rows db)\<rparr>,
        Inr (apply_data t d r0))" by auto
  have "map id_p (map (\<lambda>x. if id_p x = i then apply_data t d x else x) (product_rows db)) = map id_p (product_rows db)"
    by (rule map_keep_id [of "apply_data t d", OF k])
  with u r0 k [of r0]
  show "\<exists>db' p'. update t db i (dto\<lparr>id_u := Some j\<rparr>) = (db', Inr p') \<and> id_p p' = i \<and>
           map id_p (product_rows db') = map id_p (product_rows db)"
    by simp
qed

theorem update_ignores_patch_id_witness:
  "laptop \<in> set (product_rows shop) \<and> id_p laptop = 1 \<and> available_p laptop \<and>
   update 50 shop 1 (new_price (Some 7)) =
     (\<lparr>product_rows = [laptop\<lparr>price_p := 899.99, updatedAt_p := 50\<rparr>, mouse, keyboard, monitor],
        sqlite_sequence = 4\<rparr>,
      Inr (laptop\<lparr>price_p := 899.99, updatedAt_p := 50\<rparr>)) \<and>
   update 50 shop 1 (new_price None) = update 50 shop 1 (new_price (Some 7)) \<and>
   id_p (laptop\<lparr>price_p := 899.99, updatedAt_p := 50\<rparr>) = 1"
  (is "?h1 \<and> ?h2 \<and> ?h3 \<and> ?c1 \<and> ?c2 \<and> ?c3")
proof -
  have h1: ?h1 by (simp add: shop_def)
  have h2: ?h2 and h3: ?h3 by (simp_all add: laptop_def)
  have c1: ?c1
    by (simp add: update_def findOne_def product_findFirst_def product_update_def apply_data_def
        Let_def new_price_def shop_def laptop_def mouse_def keyboard_def monitor_def)
  from update_ignores_patch_id [where t = 50 and db = shop and i = 1 and dto = "new_price (Some 3)" and j = 7] have c2: ?c2
    by (simp add: new_price_def)
  from update_ignores_patch_id [where t = 50 and db = shop and i = 1 and dto = "new_price (Some 3)" and j = 7] h1 h2 h3 obtain db' p' where
    "update 50 shop 1 ((new_price (Some 3))\<lparr>id_u := Some 7\<rparr>) = (db', Inr p')" "id_p p' = 1"
    by blast
  with c1 have c3: ?c3 by (simp add: new_price_def)
  from h1 h2 h3 c1 c2 c3 show ?thesis by (intro conjI)
qed

text \<open>
  C9, monotonic timestamps.  As stated, for every sequence of calls, the claim fails: the
  write takes the reading of the clock, and nothing compares it with \<open>createdAt\<close>.  A
  product created at clock reading 10 and updated at clock reading 5 has
  \<open>updatedAt < createdAt\<close>.
\<close>

theorem timestamps_clock_set_back:
  "run empty_db [(10, Create new_webcam), (5, Update 1 (new_price (Some 1)))] =
     \<lparr>product_rows =
        [\<lparr>id_p = 1, name_p = ''Webcam'', price_p = 899.99, available_p = True,
          createdAt_p = 10, updatedAt_p = 5\<rparr>],
      sqlite_sequence = 1\<rparr> \<and>
   updatedAt_p \<lparr>id_p = 1, name_p = ''Webcam'', price_p = 899.99, available_p = True,
          createdAt_p = 10, updatedAt_p = 5\<rparr>
     < createdAt_p \<lparr>id_p = 1, name_p = ''Webcam'', price_p = 899.99, available_p = True,
          createdAt_p = 10, updatedAt_p = 5\<rparr>"
  by (simp add: empty_db_def create_def product_create_def update_def findOne_def
      product_findFirst_def product_update_def apply_data_def Let_def new_webcam_def
      new_price_def)

text \<open>
  C9 as amended.  When the clock readings of successive calls are in non-decreasing order
  (time does not run backwards between two calls), then, starting from the empty table,
  after every sequence of calls of the five methods, every row of the table has
  \<open>updatedAt \<ge> createdAt\<close>.  (Every prefix of a sequence of calls is a sequence of calls, so
  this holds after each call.)
\<close>

theorem monotonic_timestamps:
  assumes "sorted (map fst evs)"
  shows "\<forall>r\<in>set (product_rows (run empty_db evs)). createdAt_p r \<le> updatedAt_p r"
proof -
  have "stamped 0 empty_db" by (simp add: stamped_def empty_db_def)
  from stamped_run [OF this assms] show ?thesis by (auto simp: stamped_def)
qed

theorem monotonic_timestamps_witness:
  "sorted (map fst [(10, Create new_webcam), (20::nat, Update 1 (new_price (Some 1))),
                    (20, FindOne 1), (30, Create new_webcam), (40, Remove 1)]) \<and>
   run empty_db [(10, Create new_webcam), (20, Update 1 (new_price (Some 1))),
                 (20, FindOne 1), (30, Create new_webcam), (40, Remove 1)] =
     \<lparr>product_rows =
        [\<lparr>id_p = 1, name_p = ''Webcam'', price_p = 899.99, available_p = False,
          createdAt_p = 10, updatedAt_p = 40\<rparr>,
         \<lparr>id_p = 2, name_p = ''Webcam'', price_p = 60, available_p = True,
          createdAt_p = 30, updatedAt_p = 30\<rparr>],
      sqlite_sequence = 2\<rparr> \<and>
   list_all (\<lambda>r. createdAt_p r \<le> updatedAt_p r)
     (product_rows (run empty_db [(10, Create new_webcam), (20, Update 1 (new_price (Some 1))),
                 (20, FindOne 1), (30, Create new_webcam), (40, Remove 1)]))"
  (is "?h \<and> ?e \<and> ?c")
proof -
  have h: ?h by simp
  have e: ?e
    by (simp add: empty_db_def create_def product_create_def update_def remove_def findOne_def
        product_findFirst_def product_update_def apply_data_def soft_delete_def Let_def
        new_webcam_def new_price_def)
  from monotonic_timestamps [OF h] have c: ?c by (simp only: list_all_iff)
  from h e c show ?thesis by (intro conjI)
qed

text \<open>
  C10, the TypeScript source and the compiled JavaScript copy of \<open>update\<close>.  As stated, for
  every id and every patch, the claim fails, in two ways.  With a patch whose id differs
  from the id of the call, the compiled copy writes the patch's id into the row and the
  source does not.  With a patch that has the id of the call and nothing else, the
  source, having dropped the id, has nothing to write and leaves the row as it is, while
  the compiled copy writes the id and with it refreshes \<open>updatedAt\<close>.
\<close>

theorem update_dist_differs:
  "update 50 shop 1 (new_price (Some 7)) =
     (\<lparr>product_rows = [laptop\<lparr>price_p := 899.99, updatedAt_p := 50\<rparr>, mouse, keyboard, monitor],
        sqlite_sequence = 4\<rparr>,
      Inr (laptop\<lparr>price_p := 899.99, updatedAt_p := 50\<rparr>)) \<and>
   update_dist 50 shop 1 (new_price (Some 7)) =
     (\<lparr>product_rows = [laptop\<lparr>id_p := 7, price_p := 899.99, updatedAt_p := 50\<rparr>, mouse, keyboard, monitor],
        sqlite_sequence = 4\<rparr>,
      Inr (laptop\<lparr>id_p := 7, price_p := 899.99, updatedAt_p := 50\<rparr>)) \<and>
   update_dist 50 shop 1 (new_price (Some 7)) \<noteq> update 50 shop 1 (new_price (Some 7)) \<and>
   update 50 shop 1 (only_id 1) = (shop, Inr laptop) \<and>
   update_dist 50 shop 1 (only_id 1) =
     (\<lparr>product_rows = [laptop\<lparr>updatedAt_p := 50\<rparr>, mouse, keyboard, monitor],
        sqlite_sequence = 4\<rparr>,
      Inr (laptop\<lparr>updatedAt_p := 50\<rparr>)) \<and>
   update_dist 50 shop 1 (only_id 1) \<noteq> update 50 shop 1 (only_id 1)"
  by (simp add: update_dist_def update_def findOne_def product_findFirst_def product_update_def
      apply_data_def Let_def new_price_def only_id_def shop_def laptop_def mouse_def
      keyboard_def monitor_def)

text \<open>
  C10 as amended.  The source and the compiled copy leave the same database and return
  the same value exactly in these cases: the patch has no id field; or its id is the id
  of the call and it has a name or a price as well (or, having neither, meets rows of
  that id whose \<open>updatedAt\<close> already is the clock reading of the call); or no available
  product has the id of the call (both then fail with \<open>NotFoundException\<close>).
\<close>

theorem update_dist_same_id:
  "update_dist t db i dto = update t db i dto \<longleftrightarrow>
     id_u dto = None \<or>
     (id_u dto = Some i \<and>
        (name_u dto \<noteq> None \<or> price_u dto \<noteq> None \<or>
         (\<forall>r\<in>set (product_rows db). id_p r = i \<longrightarrow> updatedAt_p r = t))) \<or>
     \<not> (\<exists>r. r \<in> set (product_rows db) \<and> id_p r = i \<and> available_p r)"
proof (cases "\<exists>r. r \<in> set (product_rows db) \<and> id_p r = i \<and> available_p r")
  case False
  then have "findOne db i = Inl (NotFoundException i)" by (intro findOne_absent) auto
  then have "update_dist t db i dto = update t db i dto"
    by (simp add: update_dist_def update_def)
  with False show ?thesis by simp
next
  case True
  then obtain r where r: "r \<in> set (product_rows db)" "id_p r = i" "available_p r" by auto
  from findOne_found [OF r] obtain p where p: "findOne db i = Inr p" by auto
  from r(1,2) obtain r0 where f: "find (\<lambda>r. id_p r = i) (product_rows db) = Some r0"
    by (cases "find (\<lambda>r. id_p r = i) (product_rows db)") (auto simp: find_None_iff)
  then have r0: "id_p r0 = i" "r0 \<in> set (product_rows db)" by (auto simp: find_Some_iff)
  let ?d = "\<lparr>id_d = None, name_d = name_u dto, price_d = price_u dto, available_d = None\<rparr>"
  let ?e = "\<lparr>id_d = id_u dto, name_d = name_u dto, price_d = price_u dto, available_d = None\<rparr>"
  have s: "update t db i dto =
      (db\<lparr>product_rows := map (\<lambda>x. if id_p x = i then apply_data t ?d x else x) (product_rows db)\<rparr>,
       Inr (apply_data t ?d r0))"
    using p f r0(1) by (simp add: update_def product_update_def Let_def apply_data_keep_id)
  have ds: "update_dist t db i dto = product_update t i ?e db"
    using p by (simp add: update_dist_def)
  show ?thesis
  proof (cases "id_u dto")
    case None
    then have "?e = ?d" by simp
    with ds p have "update_dist t db i dto = update t db i dto" by (simp add: update_def)
    with None show ?thesis by simp
  next
    case (Some j)
    show ?thesis
    proof (cases "j = i")
      case same: True
      have ke: "\<And>x. id_p x = i \<Longrightarrow> id_p (apply_data t ?e x) = i"
        using Some same by (simp add: apply_data_def)
      have de: "update_dist t db i dto =
          (db\<lparr>product_rows := map (\<lambda>x. if id_p x = i then apply_data t ?e x else x) (product_rows db)\<rparr>,
           Inr (apply_data t ?e r0))"
        using ds f r0(1) ke [of r0] by (simp add: product_update_def Let_def)
      show ?thesis
      proof (cases "name_u dto \<noteq> None \<or> price_u dto \<noteq> None")
        case True
        have "\<And>x. id_p x = i \<Longrightarrow> apply_data t ?e x = apply_data t ?d x"
          using Some same True by (auto simp: apply_data_def)
        then have "update_dist t db i dto = update t db i dto"
          using de s r0(1) by (simp cong: if_cong)
        with Some same True show ?thesis by blast
      next
        case False
        then have n: "name_u dto = None" "price_u dto = None" by simp_all
        have ad: "\<And>x. apply_data t ?d x = x" using n by (simp add: apply_data_def)
        have ae: "\<And>x. id_p x = i \<Longrightarrow> apply_data t ?e x = x\<lparr>updatedAt_p := t\<rparr>"
          using n Some same by (simp add: apply_data_def)
        have "map (\<lambda>x. if id_p x = i then apply_data t ?d x else x) (product_rows db) = product_rows db"
          by (rule map_idI) (simp add: ad)
        with s have s': "update t db i dto = (db, Inr r0)"
          by (simp add: ad)
        have de': "update_dist t db i dto =
            (db\<lparr>product_rows := map (\<lambda>x. if id_p x = i then x\<lparr>updatedAt_p := t\<rparr> else x) (product_rows db)\<rparr>,
             Inr (r0\<lparr>updatedAt_p := t\<rparr>))"
          using de r0(1) by (simp add: ae cong: if_cong)
        have "update_dist t db i dto = update t db i dto \<longleftrightarrow>
            (\<forall>r\<in>set (product_rows db). id_p r = i \<longrightarrow> updatedAt_p r = t)"
        proof
          assume "update_dist t db i dto = update t db i dto"
          with s' de' have "db\<lparr>product_rows := map (\<lambda>x. if id_p x = i then x\<lparr>updatedAt_p := t\<rparr> else x) (product_rows db)\<rparr> = db"
            by simp
          then have "product_rows (db\<lparr>product_rows := map (\<lambda>x. if id_p x = i then x\<lparr>updatedAt_p := t\<rparr> else x) (product_rows db)\<rparr>)
              = product_rows db"
            by (rule arg_cong)
          then have m: "map (\<lambda>x. if id_p x = i then x\<lparr>updatedAt_p := t\<rparr> else x) (product_rows db)
              = map (\<lambda>x. x) (product_rows db)"
            by simp
          show "\<forall>r\<in>set (product_rows db). id_p r = i \<longrightarrow> updatedAt_p r = t"
          proof (intro ballI impI)
            fix x assume x: "x \<in> set (product_rows db)" "id_p x = i"
            from m x(1) have "(if id_p x = i then x\<lparr>updatedAt_p := t\<rparr> else x) = x"
              by (simp only: map_eq_conv)
            with x(2) have "x\<lparr>updatedAt_p := t\<rparr> = x" by simp
            then have "updatedAt_p (x\<lparr>updatedAt_p := t\<rparr>) = updatedAt_p x" by simp
            then show "updatedAt_p x = t" by simp
          qed
        next
          assume a: "\<forall>r\<in>set (product_rows db). id_p r = i \<longrightarrow> updatedAt_p r = t"
          have "map (\<lambda>x. if id_p x = i then x\<lparr>updatedAt_p := t\<rparr> else x) (product_rows db)
              = map (\<lambda>x. x) (product_rows db)"
          proof (rule map_cong [OF refl])
            fix x assume "x \<in> set (product_rows db)"
            with a show "(if id_p x = i then x\<lparr>updatedAt_p := t\<rparr> else x) = x" by auto
          qed
          moreover from a r0 have "r0\<lparr>updatedAt_p := t\<rparr> = r0" by auto
          ultimately show "update_dist t db i dto = update t db i dto"
            using s' de' by simp
        qed
        with Some same n True show ?thesis by simp
      qed
    next
      case False
      have j: "id_p (apply_data t ?e r0) = j" using Some by (simp add: apply_data_def)
      have k: "id_p (apply_data t ?d r0) = i" using r0(1) by (simp add: apply_data_def)
      from product_update_result [of t i ?e db] f j
      have "product_update t i ?e db = (db, Inl PersistenceError) \<or>
          (\<exists>db'. product_update t i ?e db = (db', Inr (apply_data t ?e r0)))"
        by (auto simp: product_update_def Let_def split: if_splits)
      then have "update_dist t db i dto \<noteq> update t db i dto"
      proof
        assume "product_update t i ?e db = (db, Inl PersistenceError)"
        with ds s show ?thesis by simp
      next
        assume "\<exists>db'. product_update t i ?e db = (db', Inr (apply_data t ?e r0))"
        then obtain db' where "update_dist t db i dto = (db', Inr (apply_data t ?e r0))"
          using ds by auto
        moreover have "apply_data t ?e r0 \<noteq> apply_data t ?d r0"
          using j k False by auto
        ultimately show ?thesis using s by simp
      qed
      with Some False True show ?thesis by simp
    qed
  qed
qed

theorem update_dist_same_id_witness:
  "update_dist 50 shop 1 (new_price (Some 1)) =
     (\<lparr>product_rows = [laptop\<lparr>price_p := 899.99, updatedAt_p := 50\<rparr>, mouse, keyboard, monitor],
        sqlite_sequence = 4\<rparr>,
      Inr (laptop\<lparr>price_p := 899.99, updatedAt_p := 50\<rparr>)) \<and>
   update_dist 50 shop 1 (new_price (Some 1)) = update 50 shop 1 (new_price (Some 1)) \<and>
   update_dist 50 shop 1 (new_price None) = update 50 shop 1 (new_price None) \<and>
   update_dist 50 shop 2 (new_price (Some 7)) = update 50 shop 2 (new_price (Some 7)) \<and>
   update_dist 50 shop 2 (new_price (Some 7)) = (shop, Inl (NotFoundException 2)) \<and>
   update_dist 10 shop 1 (only_id 1) = update 10 shop 1 (only_id 1) \<and>
   update 10 shop 1 (only_id 1) = (shop, Inr laptop) \<and>
   update_dist 50 shop 1 (only_id 1) \<noteq> update 50 shop 1 (only_id 1) \<and>
   update_dist 50 shop 1 (new_price (Some 7)) \<noteq> update 50 shop 1 (new_price (Some 7))"
  (is "?e \<and> ?c1 \<and> ?c2 \<and> ?c3 \<and> ?c4 \<and> ?c5 \<and> ?c6 \<and> ?c7 \<and> ?c8")
proof -
  have e: ?e
    by (simp add: update_dist_def findOne_def product_findFirst_def product_update_def
        apply_data_def Let_def new_price_def shop_def laptop_def mouse_def keyboard_def
        monitor_def)
  have av: "\<exists>r. r \<in> set (product_rows shop) \<and> id_p r = 1 \<and> available_p r"
    by (rule exI [of _ laptop]) (simp add: shop_def laptop_def)
  have c1: ?c1
    by (rule iffD2 [OF update_dist_same_id]) (simp add: new_price_def)
  have c2: ?c2
    by (rule iffD2 [OF update_dist_same_id]) (simp add: new_price_def)
  have n2: "\<not> (\<exists>r. r \<in> set (product_rows shop) \<and> id_p r = 2 \<and> available_p r)"
    by (auto simp: shop_def laptop_def mouse_def keyboard_def monitor_def)
  have c3: ?c3
    by (rule iffD2 [OF update_dist_same_id]) (use n2 in blast)
  have c4: ?c4
    by (simp add: update_dist_def findOne_def product_findFirst_def shop_def laptop_def
        mouse_def keyboard_def monitor_def)
  have u10: "\<forall>r\<in>set (product_rows shop). id_p r = 1 \<longrightarrow> updatedAt_p r = 10"
    by (simp add: shop_def laptop_def mouse_def keyboard_def monitor_def)
  have i1: "id_u (only_id 1) = Some 1" "name_u (only_id 1) = None" "price_u (only_id 1) = None"
    by (simp_all add: only_id_def)
  have c5: ?c5
    by (rule iffD2 [OF update_dist_same_id]) (use u10 i1 in blast)
  have c6: ?c6
    by (simp add: update_def findOne_def product_findFirst_def product_update_def
        apply_data_def Let_def only_id_def shop_def laptop_def mouse_def keyboard_def
        monitor_def)
  have u50: "\<not> (\<forall>r\<in>set (product_rows shop). id_p r = 1 \<longrightarrow> updatedAt_p r = 50)"
    by (simp add: shop_def laptop_def mouse_def keyboard_def monitor_def)
  have c7: ?c7
  proof
    assume "update_dist 50 shop 1 (only_id 1) = update 50 shop 1 (only_id 1)"
    from iffD1 [OF update_dist_same_id this] i1 u50 av show False by auto
  qed
  have i7: "id_u (new_price (Some 7)) = Some 7" by (simp add: new_price_def)
  have c8: ?c8
  proof
    assume "update_dist 50 shop 1 (new_price (Some 7)) = update 50 shop 1 (new_price (Some 7))"
    from iffD1 [OF update_dist_same_id this] i7 av show False by auto
  qed
  from e c1 c2 c3 c4 c5 c6 c7 c8 show ?thesis by (intro conjI)
qed

end
